theory Spec2Isabelle
  imports Main "HOL-Library.Sublist"
begin

section \<open>The local csv playlists plugin of ultrasonics\<close>

text \<open>
  A shallow embedding of \<^verbatim>\<open>official_plugins/up_local csv playlists.py\<close>. The plugin's
  only function with behaviour is \<^verbatim>\<open>run\<close>; it calls the Python standard library
  (\<^verbatim>\<open>str.rstrip\<close>, \<^verbatim>\<open>os.path.splitext\<close>, \<^verbatim>\<open>os.path.join\<close>, \<^verbatim>\<open>os.listdir\<close>,
  \<^verbatim>\<open>os.walk\<close>, \<^verbatim>\<open>io.open\<close>, \<^verbatim>\<open>csv.reader\<close>) and one collaborator of the
  repository, \<^verbatim>\<open>name_filter.filter_list\<close>. The library calls are modelled for a POSIX
  system (\<^verbatim>\<open>os.path\<close> is \<^verbatim>\<open>posixpath\<close>), following CPython. A Python \<^verbatim>\<open>str\<close> is a
  \<^typ>\<open>string\<close>, an exception is the left injection of a sum, and what \<^verbatim>\<open>log\<close> receives
  is returned as a list.
\<close>

subsection \<open>Characters and exceptions\<close>

abbreviation SLASH :: char where "SLASH \<equiv> CHR ''/''"
abbreviation BACKSLASH :: char where "BACKSLASH \<equiv> CHR 0x5C"
abbreviation DOT :: char where "DOT \<equiv> CHR ''.''"
abbreviation COMMA :: char where "COMMA \<equiv> CHR '',''"
abbreviation DQUOTE :: char where "DQUOTE \<equiv> CHR 0x22"
abbreviation LF :: char where "LF \<equiv> CHR 0x0A"
abbreviation CR :: char where "CR \<equiv> CHR 0x0D"

datatype exception =
    FileNotFoundError
  | NotADirectoryError
  | IsADirectoryError
  | PermissionError
  | IndexError
  | CsvError

subsection \<open>String methods and \<open>os.path\<close>\<close>

text \<open>\<^verbatim>\<open>s.rstrip(chars)\<close>: drop every trailing character that occurs in \<open>chars\<close>.\<close>

definition rstrip :: "string \<Rightarrow> string \<Rightarrow> string" where
  "rstrip s chars = rev (dropWhile (\<lambda>c. c \<in> set chars) (rev s))"

text \<open>\<^verbatim>\<open>s.rfind(c)\<close> for a single character: the highest index of \<open>c\<close>, or \<open>-1\<close>.\<close>

fun rfind :: "string \<Rightarrow> char \<Rightarrow> int" where
  "rfind [] c = - 1"
| "rfind (x # xs) c =
     (let r = rfind xs c in if 0 \<le> r then r + 1 else if x = c then 0 else - 1)"

text \<open>
  \<^verbatim>\<open>os.path.splitext\<close> (\<^verbatim>\<open>genericpath._splitext\<close> with \<^verbatim>\<open>sep = '/'\<close>, no \<^verbatim>\<open>altsep\<close>):
  the extension starts at the last dot after the last separator, unless only dots precede it
  in the file name.
\<close>

definition splitext :: "string \<Rightarrow> string \<times> string" where
  "splitext p =
     (let sepIndex = rfind p SLASH; dotIndex = rfind p DOT in
      if sepIndex < dotIndex \<and>
         list_ex (\<lambda>c. c \<noteq> DOT)
           (take (nat (dotIndex - (sepIndex + 1))) (drop (nat (sepIndex + 1)) p))
      then (take (nat dotIndex) p, drop (nat dotIndex) p)
      else (p, []))"

text \<open>\<^verbatim>\<open>os.path.join(a, b)\<close> of \<^verbatim>\<open>posixpath\<close>, for two arguments.\<close>

definition join :: "string \<Rightarrow> string \<Rightarrow> string" where
  "join a b =
     (if b \<noteq> [] \<and> hd b = SLASH then b
      else if a = [] \<or> last a = SLASH then a @ b
      else a @ [SLASH] @ b)"

text \<open>\<^verbatim>\<open>p.split('/')\<close>, used to resolve a path.\<close>

fun split_acc :: "string \<Rightarrow> string \<Rightarrow> string list" where
  "split_acc cur [] = [cur]"
| "split_acc cur (c # cs) =
     (if c = SLASH then cur # split_acc [] cs else split_acc (cur @ [c]) cs)"

definition split_path :: "string \<Rightarrow> string list" where
  "split_path p = split_acc [] p"

subsection \<open>The file system\<close>

text \<open>
  A tree of directories and regular files. A file carries its decoded text and whether it
  may be read, a directory its entries in enumeration order and whether it may be listed.
  Symbolic links are not modelled, and the working directory is the root.
\<close>

datatype node =
    File bool string
  | Dir bool "(string \<times> node) list"

fun is_dir :: "node \<Rightarrow> bool" where
  "is_dir (Dir _ _) = True"
| "is_dir (File _ _) = False"

fun resolve_from :: "node \<Rightarrow> node list \<Rightarrow> string list \<Rightarrow> exception + node" where
  "resolve_from cur anc [] = Inr cur"
| "resolve_from (File r t) anc (c # cs) = Inl NotADirectoryError"
| "resolve_from (Dir r es) anc (c # cs) =
     (if c = [] \<or> c = ''.'' then resolve_from (Dir r es) anc cs
      else if c = ''..'' then
        (case anc of [] \<Rightarrow> resolve_from (Dir r es) [] cs | a # as \<Rightarrow> resolve_from a as cs)
      else
        (case map_of es c of
           None \<Rightarrow> Inl FileNotFoundError
         | Some x \<Rightarrow> resolve_from x (Dir r es # anc) cs))"

definition resolve :: "node \<Rightarrow> string \<Rightarrow> exception + node" where
  "resolve fs p = (if p = [] then Inl FileNotFoundError else resolve_from fs [] (split_path p))"

text \<open>\<^verbatim>\<open>os.listdir(path)\<close>: the names of all entries, files and directories alike.\<close>

definition os_listdir :: "node \<Rightarrow> string \<Rightarrow> exception + string list" where
  "os_listdir fs p =
     (case resolve fs p of
        Inl e \<Rightarrow> Inl e
      | Inr (File r t) \<Rightarrow> Inl NotADirectoryError
      | Inr (Dir r es) \<Rightarrow> if r then Inr (map fst es) else Inl PermissionError)"

text \<open>
  \<^verbatim>\<open>os.walk(top)\<close>, top-down, with its default \<^verbatim>\<open>onerror=None\<close>: a directory that
  cannot be scanned is skipped silently and yields nothing. Each yielded triple is
  \<open>(dirpath, dirnames, filenames)\<close>.
\<close>

fun walk_node :: "string \<Rightarrow> node \<Rightarrow> (string \<times> string list \<times> string list) list"
  and walk_entries :: "string \<Rightarrow> (string \<times> node) list \<Rightarrow> (string \<times> string list \<times> string list) list"
where
  "walk_node tp (File r t) = []"
| "walk_node tp (Dir r es) =
     (if r then
        (tp, map fst (filter (\<lambda>e. is_dir (snd e)) es),
             map fst (filter (\<lambda>e. \<not> is_dir (snd e)) es)) # walk_entries tp es
      else [])"
| "walk_entries tp [] = []"
| "walk_entries tp (e # es) =
     (if is_dir (snd e) then walk_node (join tp (fst e)) (snd e) else []) @ walk_entries tp es"

definition os_walk :: "node \<Rightarrow> string \<Rightarrow> (string \<times> string list \<times> string list) list" where
  "os_walk fs p = (case resolve fs p of Inl e \<Rightarrow> [] | Inr nd \<Rightarrow> walk_node p nd)"

text \<open>\<^verbatim>\<open>io.open(path, 'r', encoding='utf8')\<close> followed by reading: the text, or the exception.\<close>

definition io_open :: "node \<Rightarrow> string \<Rightarrow> exception + string" where
  "io_open fs p =
     (case resolve fs p of
        Inl e \<Rightarrow> Inl e
      | Inr (Dir r es) \<Rightarrow> Inl IsADirectoryError
      | Inr (File r t) \<Rightarrow> if r then Inr t else Inl PermissionError)"

text \<open>
  Iterating over a text file opened with the default \<^verbatim>\<open>newline=None\<close>: \<^verbatim>\<open>\r\n\<close> and
  \<^verbatim>\<open>\r\<close> are translated to \<^verbatim>\<open>\n\<close>, and each line keeps its terminating \<^verbatim>\<open>\n\<close>.
\<close>

fun universal_newlines :: "string \<Rightarrow> string" where
  "universal_newlines [] = []"
| "universal_newlines [c] = (if c = CR then [LF] else [c])"
| "universal_newlines (c # d # ds) =
     (if c = CR \<and> d = LF then LF # universal_newlines ds
      else if c = CR then LF # universal_newlines (d # ds)
      else c # universal_newlines (d # ds))"

fun readlines_acc :: "string \<Rightarrow> string \<Rightarrow> string list" where
  "readlines_acc cur [] = (if cur = [] then [] else [cur])"
| "readlines_acc cur (c # cs) =
     (if c = LF then (cur @ [LF]) # readlines_acc [] cs else readlines_acc (cur @ [c]) cs)"

definition file_lines :: "string \<Rightarrow> string list" where
  "file_lines t = readlines_acc [] (universal_newlines t)"

subsection \<open>\<open>csv.reader\<close>\<close>

text \<open>
  The reader of CPython's \<^verbatim>\<open>_csv\<close> module for the default \<^verbatim>\<open>excel\<close> dialect with
  \<^verbatim>\<open>delimiter=','\<close>: quote character \<^verbatim>\<open>"\<close>, \<^verbatim>\<open>doublequote\<close>, no escape character, not
  strict, \<^verbatim>\<open>QUOTE_MINIMAL\<close>. The states that need an escape character are left out. A field
  may hold at most \<open>field_limit\<close> characters.
\<close>

datatype parser_state =
    START_RECORD
  | START_FIELD
  | IN_FIELD
  | IN_QUOTED_FIELD
  | QUOTE_IN_QUOTED_FIELD
  | EAT_CRNL

record reader =
  rd_state :: parser_state
  rd_fields :: "string list"
  rd_field :: string

datatype symbol = Chr char | EOL

definition field_limit :: nat where
  "field_limit = 131072"

definition parse_reset :: reader where
  "parse_reset = \<lparr>rd_state = START_RECORD, rd_fields = [], rd_field = []\<rparr>"

definition parse_save_field :: "reader \<Rightarrow> reader" where
  "parse_save_field r = r\<lparr>rd_fields := rd_fields r @ [rd_field r], rd_field := []\<rparr>"

definition parse_add_char :: "reader \<Rightarrow> char \<Rightarrow> exception + reader" where
  "parse_add_char r c =
     (if field_limit \<le> length (rd_field r) then Inl CsvError
      else Inr (r\<lparr>rd_field := rd_field r @ [c]\<rparr>))"

definition is_newline :: "symbol \<Rightarrow> bool" where
  "is_newline s = (s = Chr LF \<or> s = Chr CR)"

definition the_char :: "symbol \<Rightarrow> char" where
  "the_char s = (case s of Chr c \<Rightarrow> c | EOL \<Rightarrow> LF)"

definition start_field :: "reader \<Rightarrow> symbol \<Rightarrow> exception + reader" where
  "start_field r s =
     (if is_newline s \<or> s = EOL then
        Inr ((parse_save_field r)\<lparr>rd_state := (if s = EOL then START_RECORD else EAT_CRNL)\<rparr>)
      else if s = Chr DQUOTE then Inr (r\<lparr>rd_state := IN_QUOTED_FIELD\<rparr>)
      else if s = Chr COMMA then Inr (parse_save_field r)
      else
        (case parse_add_char r (the_char s) of
           Inl e \<Rightarrow> Inl e
         | Inr r' \<Rightarrow> Inr (r'\<lparr>rd_state := IN_FIELD\<rparr>)))"

definition parse_process_char :: "reader \<Rightarrow> symbol \<Rightarrow> exception + reader" where
  "parse_process_char r s =
     (case rd_state r of
        START_RECORD \<Rightarrow>
          if s = EOL then Inr r
          else if is_newline s then Inr (r\<lparr>rd_state := EAT_CRNL\<rparr>)
          else start_field (r\<lparr>rd_state := START_FIELD\<rparr>) s
      | START_FIELD \<Rightarrow> start_field r s
      | IN_FIELD \<Rightarrow>
          if is_newline s \<or> s = EOL then
            Inr ((parse_save_field r)\<lparr>rd_state := (if s = EOL then START_RECORD else EAT_CRNL)\<rparr>)
          else if s = Chr COMMA then Inr ((parse_save_field r)\<lparr>rd_state := START_FIELD\<rparr>)
          else parse_add_char r (the_char s)
      | IN_QUOTED_FIELD \<Rightarrow>
          if s = EOL then Inr r
          else if s = Chr DQUOTE then Inr (r\<lparr>rd_state := QUOTE_IN_QUOTED_FIELD\<rparr>)
          else parse_add_char r (the_char s)
      | QUOTE_IN_QUOTED_FIELD \<Rightarrow>
          if s = Chr DQUOTE then
            (case parse_add_char r DQUOTE of
               Inl e \<Rightarrow> Inl e
             | Inr r' \<Rightarrow> Inr (r'\<lparr>rd_state := IN_QUOTED_FIELD\<rparr>))
          else if s = Chr COMMA then Inr ((parse_save_field r)\<lparr>rd_state := START_FIELD\<rparr>)
          else if is_newline s \<or> s = EOL then
            Inr ((parse_save_field r)\<lparr>rd_state := (if s = EOL then START_RECORD else EAT_CRNL)\<rparr>)
          else
            (case parse_add_char r (the_char s) of
               Inl e \<Rightarrow> Inl e
             | Inr r' \<Rightarrow> Inr (r'\<lparr>rd_state := IN_FIELD\<rparr>))
      | EAT_CRNL \<Rightarrow>
          if is_newline s then Inr r
          else if s = EOL then Inr (r\<lparr>rd_state := START_RECORD\<rparr>)
          else Inl CsvError)"

text \<open>One line of input: every character of the line, then the end-of-line symbol.\<close>

fun process_line :: "reader \<Rightarrow> string \<Rightarrow> exception + reader" where
  "process_line r [] = parse_process_char r EOL"
| "process_line r (c # cs) =
     (case parse_process_char r (Chr c) of
        Inl e \<Rightarrow> Inl e
      | Inr r' \<Rightarrow> process_line r' cs)"

text \<open>
  \<^verbatim>\<open>Reader_iternext\<close>: lines are consumed until a record is complete. The result is the
  exception raised, \<open>None\<close> for \<^verbatim>\<open>StopIteration\<close>, or the row with the lines left.
\<close>

fun iternext_loop :: "reader \<Rightarrow> string list \<Rightarrow> exception + (string list \<times> string list) option" where
  "iternext_loop r [] =
     (if 0 < length (rd_field r) \<or> rd_state r = IN_QUOTED_FIELD
      then Inr (Some (rd_fields (parse_save_field r), []))
      else Inr None)"
| "iternext_loop r (l # ls) =
     (case process_line r l of
        Inl e \<Rightarrow> Inl e
      | Inr r' \<Rightarrow>
          if rd_state r' = START_RECORD then Inr (Some (rd_fields r', ls))
          else iternext_loop r' ls)"

definition Reader_iternext :: "string list \<Rightarrow> exception + (string list \<times> string list) option" where
  "Reader_iternext ls = iternext_loop parse_reset ls"

subsection \<open>The data of the plugin\<close>

text \<open>
  The dictionaries that \<^verbatim>\<open>run\<close> builds have fixed keys, so they are records:
  a discovered playlist \<^verbatim>\<open>{"name", "path"}\<close>, a song
  \<^verbatim>\<open>{"artist", "title", "album", "isrc"}\<close> and an entry of \<^verbatim>\<open>songs_dict\<close>
  \<^verbatim>\<open>{"name", "id", "songs"}\<close>, whose \<^verbatim>\<open>"id"\<close> is always the empty dictionary.
\<close>

record playlist =
  name :: string
  path :: string

record song =
  artist :: string
  title :: string
  album :: string
  isrc :: string

record songs_dict_entry =
  entry_name :: string
  entry_id :: "(string \<times> string) list"
  songs :: "song list"

text \<open>
  \<^verbatim>\<open>settings_dict\<close> with the keys \<^verbatim>\<open>"dir"\<close>, \<^verbatim>\<open>"recursive"\<close> and \<^verbatim>\<open>"filter"\<close>, and
  the keyword arguments \<^verbatim>\<open>run\<close> uses (\<^verbatim>\<open>database\<close>, \<^verbatim>\<open>global_settings\<close> and
  \<^verbatim>\<open>applet_id\<close> are read and never used).
\<close>

record settings =
  dir :: string
  recursive :: string
  filter_pattern :: string

record kwargs =
  component :: string
  songs_dict :: "songs_dict_entry list"

datatype log_record =
    LogError exception
  | LogFound nat
  | LogMatch nat

definition supported_playlist_extensions :: "string list" where
  "supported_playlist_extensions = [''.csv'']"

definition handshake_type :: "string list" where
  "handshake_type = [''inputs'']"

subsection \<open>Reading one playlist file\<close>

text \<open>\<^verbatim>\<open>songRow[i]\<close>: an index past the end raises \<^verbatim>\<open>IndexError\<close>.\<close>

definition getitem :: "'a list \<Rightarrow> nat \<Rightarrow> exception + 'a" where
  "getitem xs i = (if i < length xs then Inr (xs ! i) else Inl IndexError)"

text \<open>The body of the loop over the rows (lines 137 to 141 of the source).\<close>

definition make_song :: "string list \<Rightarrow> exception + song" where
  "make_song songRow =
     (case getitem songRow 0 of Inl e \<Rightarrow> Inl e | Inr a \<Rightarrow>
      case getitem songRow 1 of Inl e \<Rightarrow> Inl e | Inr t \<Rightarrow>
      case getitem songRow 2 of Inl e \<Rightarrow> Inl e | Inr al \<Rightarrow>
      case getitem songRow 3 of Inl e \<Rightarrow> Inl e | Inr i \<Rightarrow>
        Inr \<lparr>artist = a, title = t, album = al, isrc = i\<rparr>)"

lemma iternext_loop_rest:
  "iternext_loop r ls = Inr (Some (row, rest)) \<Longrightarrow> length rest \<le> length ls"
proof (induction ls arbitrary: r)
  case Nil
  then show ?case by (simp split: if_splits)
next
  case (Cons l ls)
  then show ?case
    by (fastforce split: sum.splits if_splits)
qed

lemma Reader_iternext_rest:
  assumes "Reader_iternext ls = Inr (Some (row, rest))"
  shows "length rest < length ls"
proof (cases ls)
  case Nil
  with assms show ?thesis
    by (simp add: Reader_iternext_def parse_reset_def)
next
  case (Cons l ls')
  show ?thesis
  proof (cases "process_line parse_reset l")
    case (Inl e)
    with assms Cons show ?thesis by (simp add: Reader_iternext_def)
  next
    case (Inr r')
    show ?thesis
    proof (cases "rd_state r' = START_RECORD")
      case True
      with assms Cons Inr show ?thesis by (auto simp: Reader_iternext_def)
    next
      case False
      with assms Cons Inr have "iternext_loop r' ls' = Inr (Some (row, rest))"
        by (simp add: Reader_iternext_def)
      then have "length rest \<le> length ls'" by (rule iternext_loop_rest)
      with Cons show ?thesis by simp
    qed
  qed
qed

text \<open>
  \<^verbatim>\<open>for songRow in reader\<close> (lines 136 to 144): each row the reader yields becomes a
  song appended to the entry's songs; an exception of the reader or of the body ends the loop.
\<close>

function read_rows :: "string list \<Rightarrow> song list \<Rightarrow> exception + song list" where
  "read_rows ls acc =
     (case Reader_iternext ls of
        Inl e \<Rightarrow> Inl e
      | Inr None \<Rightarrow> Inr acc
      | Inr (Some (songRow, rest)) \<Rightarrow>
          (case make_song songRow of
             Inl e \<Rightarrow> Inl e
           | Inr s \<Rightarrow> read_rows rest (acc @ [s])))"
  by pat_completeness auto
termination
  by (relation "measure (\<lambda>(ls, acc). length ls)") (auto dest: Reader_iternext_rest)

subsection \<open>The name filter\<close>

text \<open>
  Modelled from the spec: \<^verbatim>\<open>ultrasonics.tools.name_filter.filter_list\<close> is not among the
  source files. The spec gives its contract: it returns the subset of the names that match
  the pattern as a regular expression, and an empty pattern matches everything. The regular
  expression matcher is the parameter \<open>re_search\<close>.
\<close>

definition filter_list :: "(string \<Rightarrow> string \<Rightarrow> bool) \<Rightarrow> string list \<Rightarrow> string \<Rightarrow> string list" where
  "filter_list re_search unfiltered regex =
     filter (\<lambda>item. regex = [] \<or> re_search regex item) unfiltered"

subsection \<open>\<open>run\<close>\<close>

text \<open>Line 76: the directory without its trailing separators.\<close>

definition normalize_dir :: "string \<Rightarrow> string" where
  "normalize_dir d = rstrip (rstrip d [SLASH]) [BACKSLASH]"

definition candidate :: "string \<Rightarrow> string \<Rightarrow> playlist" where
  "candidate root item = \<lparr>name = fst (splitext item), path = join root item\<rparr>"

text \<open>
  Lines 82 to 102: the playlists of the directory with what was logged. Only the
  \<^verbatim>\<open>os.listdir\<close> of the non recursive mode can raise; \<^verbatim>\<open>except Exception\<close> logs it.
\<close>

definition list_playlists :: "node \<Rightarrow> settings \<Rightarrow> log_record list \<times> playlist list" where
  "list_playlists fs settings_dict =
     (let p = normalize_dir (dir settings_dict) in
      if recursive settings_dict = ''Yes'' then
        ([], concat (map (\<lambda>(root, _, files). map (candidate root) files) (os_walk fs p)))
      else
        (case os_listdir fs p of
           Inl e \<Rightarrow> ([LogError e], [])
         | Inr files \<Rightarrow> ([], map (candidate p) files)))"

text \<open>Lines 104 to 106: only the supported extensions are kept.\<close>

definition supported :: "playlist \<Rightarrow> bool" where
  "supported item = (snd (splitext (path item)) \<in> set supported_playlist_extensions)"

text \<open>Lines 76 to 108.\<close>

definition discover :: "node \<Rightarrow> settings \<Rightarrow> log_record list \<times> playlist list" where
  "discover fs settings_dict =
     (let (lg, playlists) = list_playlists fs settings_dict;
          playlists = filter supported playlists
      in (lg @ [LogFound (length playlists)], playlists))"

text \<open>Lines 123 to 147: every playlist is opened and read, in order.\<close>

fun read_playlists ::
  "node \<Rightarrow> playlist list \<Rightarrow> songs_dict_entry list \<Rightarrow> exception + songs_dict_entry list" where
  "read_playlists fs [] sd = Inr sd"
| "read_playlists fs (p # ps) sd =
     (case io_open fs (path p) of
        Inl e \<Rightarrow> Inl e
      | Inr csvFile \<Rightarrow>
          (case read_rows (file_lines csvFile) [] of
             Inl e \<Rightarrow> Inl e
           | Inr ss \<Rightarrow>
               read_playlists fs ps (sd @ [\<lparr>entry_name = name p, entry_id = [], songs = ss\<rparr>])))"

text \<open>
  The result of a call: the file system after it, what was logged, and either the
  exception that left \<^verbatim>\<open>run\<close> or the value returned, \<open>None\<close> being Python's \<^verbatim>\<open>None\<close>.
\<close>

record run_result =
  fs_after :: node
  logged :: "log_record list"
  returned :: "exception + songs_dict_entry list option"

text \<open>Lines 113 to 121: the playlists whose name the name filter returns.\<close>

definition filter_playlists ::
  "(string list \<Rightarrow> string \<Rightarrow> string list) \<Rightarrow> settings \<Rightarrow> playlist list \<Rightarrow> string list \<times> playlist list" where
  "filter_playlists name_filter settings_dict playlists =
     (let filter_titles = name_filter (map name playlists) (filter_pattern settings_dict)
      in (filter_titles, filter (\<lambda>item. name item \<in> set filter_titles) playlists))"

definition run ::
  "(string list \<Rightarrow> string \<Rightarrow> string list) \<Rightarrow> node \<Rightarrow> settings \<Rightarrow> kwargs \<Rightarrow> run_result" where
  "run name_filter fs settings_dict kw =
     (let (lg, playlists) = discover fs settings_dict in
      if component kw = ''inputs'' then
        (let (filter_titles, playlists) = filter_playlists name_filter settings_dict playlists;
             lg = lg @ [LogMatch (length filter_titles)]
         in \<lparr>fs_after = fs, logged = lg,
              returned = (case read_playlists fs playlists [] of
                            Inl e \<Rightarrow> Inl e
                          | Inr sd \<Rightarrow> Inr (Some sd))\<rparr>)
      else \<lparr>fs_after = fs, logged = lg, returned = Inr None\<rparr>)"

subsection \<open>The rows of a file\<close>

text \<open>
  What iterating the reader to its end yields: the rows in order, and the exception that
  ended the iteration, if one did. It serves to state what \<open>read_rows\<close> does with the rows.
\<close>

function reader_rows :: "string list \<Rightarrow> string list list \<times> exception option" where
  "reader_rows ls =
     (case Reader_iternext ls of
        Inl e \<Rightarrow> ([], Some e)
      | Inr None \<Rightarrow> ([], None)
      | Inr (Some (songRow, rest)) \<Rightarrow>
          (case reader_rows rest of (rows, x) \<Rightarrow> (songRow # rows, x)))"
  by pat_completeness auto
termination
  by (relation "measure length") (auto dest: Reader_iternext_rest)

text \<open>The song that the loop body builds from a row of at least four columns.\<close>

definition song_of_row :: "string list \<Rightarrow> song" where
  "song_of_row songRow =
     \<lparr>artist = songRow ! 0, title = songRow ! 1, album = songRow ! 2, isrc = songRow ! 3\<rparr>"

subsection \<open>Counting the playlist files of a directory\<close>

text \<open>
  Notions to state what the discovery finds. A name has a supported extension when
  \<^verbatim>\<open>os.path.splitext\<close> of the name gives one. The names of a real directory are not empty
  and hold no separator. \<open>count_files\<close> is the number of regular files with a supported
  extension at any depth below a directory, in the directories that can be listed.
\<close>

definition has_supported_ext :: "string \<Rightarrow> bool" where
  "has_supported_ext item = (snd (splitext item) \<in> set supported_playlist_extensions)"

definition valid_name :: "string \<Rightarrow> bool" where
  "valid_name n = (n \<noteq> [] \<and> SLASH \<notin> set n)"

fun valid_tree :: "node \<Rightarrow> bool" and valid_entries :: "(string \<times> node) list \<Rightarrow> bool" where
  "valid_tree (File r t) = True"
| "valid_tree (Dir r es) = valid_entries es"
| "valid_entries [] = True"
| "valid_entries (e # es) = (valid_name (fst e) \<and> valid_tree (snd e) \<and> valid_entries es)"

fun count_files :: "node \<Rightarrow> nat" and count_entries :: "(string \<times> node) list \<Rightarrow> nat" where
  "count_files (File r t) = 0"
| "count_files (Dir r es) = (if r then count_entries es else 0)"
| "count_entries [] = 0"
| "count_entries (e # es) =
     (if is_dir (snd e) then count_files (snd e)
      else if has_supported_ext (fst e) then 1 else 0) + count_entries es"

definition supported_files :: "(string \<times> node) list \<Rightarrow> (string \<times> node) list" where
  "supported_files es = filter (\<lambda>e. \<not> is_dir (snd e) \<and> has_supported_ext (fst e)) es"

definition unsupported_entries :: "(string \<times> node) list \<Rightarrow> (string \<times> node) list" where
  "unsupported_entries es = filter (\<lambda>e. \<not> has_supported_ext (fst e)) es"

section \<open>Scenarios\<close>

text \<open>The directory \<^verbatim>\<open>/pl\<close> that holds the one file \<^verbatim>\<open>Top.csv\<close> with two rows.\<close>

definition row_queen :: string where
  "row_queen = ''Queen,Bohemian Rhapsody,A Night at the Opera,GBUM71029604''"

definition row_abba :: string where
  "row_abba = ''ABBA,Dancing Queen,Arrival,SEAB89800001''"

definition top_csv :: string where
  "top_csv = row_queen @ [LF] @ row_abba @ [LF]"

definition pl_top :: node where
  "pl_top = Dir True [(''pl'', Dir True [(''Top.csv'', File True top_csv)])]"

definition pl_settings :: settings where
  "pl_settings = \<lparr>dir = ''/pl'', recursive = ''No'', filter_pattern = ''''\<rparr>"

definition queen :: song where
  "queen = \<lparr>artist = ''Queen'', title = ''Bohemian Rhapsody'',
             album = ''A Night at the Opera'', isrc = ''GBUM71029604''\<rparr>"

definition abba :: song where
  "abba = \<lparr>artist = ''ABBA'', title = ''Dancing Queen'', album = ''Arrival'',
            isrc = ''SEAB89800001''\<rparr>"

text \<open>
  The same two rows with the line ends of \<^verbatim>\<open>csv.writer\<close>, and with no line end after
  the last row.
\<close>

definition top_csv_crlf :: string where
  "top_csv_crlf = row_queen @ [CR, LF] @ row_abba @ [CR, LF]"

definition top_csv_bare :: string where
  "top_csv_bare = row_queen @ [LF] @ row_abba"

definition pl_top_crlf :: node where
  "pl_top_crlf = Dir True [(''pl'', Dir True [(''Top.csv'', File True top_csv_crlf)])]"

definition pl_top_bare :: node where
  "pl_top_bare = Dir True [(''pl'', Dir True [(''Top.csv'', File True top_csv_bare)])]"

text \<open>A matcher that accepts every name, and the keyword arguments of the input role.\<close>

definition match_all :: "string \<Rightarrow> string \<Rightarrow> bool" where
  "match_all regex item = True"

definition as_inputs :: kwargs where
  "as_inputs = \<lparr>component = ''inputs'', songs_dict = []\<rparr>"

definition as_outputs :: kwargs where
  "as_outputs = \<lparr>component = ''outputs'',
     songs_dict = [\<lparr>entry_name = ''Mix'', entry_id = [], songs = [queen, abba]\<rparr>]\<rparr>"

text \<open>The same directory with a second playlist file that may not be read.\<close>

definition locked_csv :: node where
  "locked_csv =
     Dir True [(''pl'', Dir True [(''Locked.csv'', File False top_csv),
                                  (''Top.csv'', File True top_csv)])]"

text \<open>Settings that name a directory which does not exist.\<close>

definition missing_settings :: "string \<Rightarrow> settings" where
  "missing_settings mode = \<lparr>dir = ''/missing'', recursive = mode, filter_pattern = ''''\<rparr>"

text \<open>A playlist file whose second row has a single column.\<close>

definition mix_csv :: string where
  "mix_csv = ''A,T,Al,ISRC1'' @ [LF] @ ''badrow'' @ [LF] @ ''B,T2,Al2,ISRC2'' @ [LF]"

definition pl_mix :: node where
  "pl_mix = Dir True [(''pl'', Dir True [(''Mix.csv'', File True mix_csv)])]"



text \<open>
  A directory \<^verbatim>\<open>/pl\<close> with files of both kinds, nested directories and a directory that
  cannot be listed, and the settings of the recursive mode.
\<close>

definition pl_entries :: "(string \<times> node) list" where
  "pl_entries =
     [(''Top.csv'', File True top_csv),
      (''notes.txt'', File True ''x''),
      (''sub'', Dir True
         [(''Deep.csv'', File True top_csv),
          (''cover.jpg'', File True []),
          (''sub2'', Dir True [(''Deeper.csv'', File True top_csv)])]),
      (''private'', Dir False [(''Hidden.csv'', File True top_csv)])]"

definition pl_tree :: node where
  "pl_tree = Dir True [(''pl'', Dir True pl_entries)]"

definition pl_recursive :: settings where
  "pl_recursive = \<lparr>dir = ''/pl'', recursive = ''Yes'', filter_pattern = ''''\<rparr>"

section \<open>Evaluation and auxiliary lemmas\<close>

declare read_rows.simps [simp del]

lemmas csv_eval = Reader_iternext_def parse_reset_def parse_process_char_def start_field_def
  parse_add_char_def parse_save_field_def is_newline_def the_char_def field_limit_def

lemmas fs_eval = resolve_def split_path_def os_listdir_def os_walk_def io_open_def
  normalize_dir_def rstrip_def join_def splitext_def candidate_def supported_def
  supported_playlist_extensions_def list_playlists_def discover_def filter_playlists_def
  file_lines_def make_song_def getitem_def

lemma discover_pl_top:
  "discover pl_top pl_settings = ([LogFound 1], [\<lparr>name = ''Top'', path = ''/pl/Top.csv''\<rparr>])"
  by (simp add: fs_eval pl_top_def pl_settings_def Let_def)

lemma pattern_pl_settings: "filter_pattern pl_settings = []"
  by (simp add: pl_settings_def)

lemma open_top: "io_open pl_top ''/pl/Top.csv'' = Inr top_csv"
  by (simp add: fs_eval pl_top_def)

lemma lines_top: "file_lines top_csv = [row_queen @ [LF], row_abba @ [LF]]"
  by (simp add: file_lines_def top_csv_def row_queen_def row_abba_def)

lemma rows_top: "read_rows [row_queen @ [LF], row_abba @ [LF]] [] = Inr [queen, abba]"
  apply (subst read_rows.simps, simp add: csv_eval make_song_def getitem_def row_queen_def)
  apply (subst read_rows.simps, simp add: csv_eval make_song_def getitem_def row_abba_def)
  apply (subst read_rows.simps, simp add: csv_eval queen_def abba_def)
  done

lemma discover_pl_top_variants:
  "discover pl_top_crlf pl_settings = ([LogFound 1], [\<lparr>name = ''Top'', path = ''/pl/Top.csv''\<rparr>])"
  "discover pl_top_bare pl_settings = ([LogFound 1], [\<lparr>name = ''Top'', path = ''/pl/Top.csv''\<rparr>])"
  by (simp_all add: fs_eval pl_top_crlf_def pl_top_bare_def pl_settings_def Let_def)

lemma open_top_variants:
  "io_open pl_top_crlf ''/pl/Top.csv'' = Inr top_csv_crlf"
  "io_open pl_top_bare ''/pl/Top.csv'' = Inr top_csv_bare"
  by (simp_all add: fs_eval pl_top_crlf_def pl_top_bare_def)

lemma lines_top_variants:
  "file_lines top_csv_crlf = [row_queen @ [LF], row_abba @ [LF]]"
  "file_lines top_csv_bare = [row_queen @ [LF], row_abba]"
  by (simp_all add: file_lines_def top_csv_crlf_def top_csv_bare_def row_queen_def row_abba_def)

lemma rows_top_bare: "read_rows [row_queen @ [LF], row_abba] [] = Inr [queen, abba]"
  apply (subst read_rows.simps, simp add: csv_eval make_song_def getitem_def row_queen_def)
  apply (subst read_rows.simps, simp add: csv_eval make_song_def getitem_def row_abba_def)
  apply (subst read_rows.simps, simp add: csv_eval queen_def abba_def)
  done

subsection \<open>Discovery and the loop over the playlists\<close>

lemma splitext_suffix: "suffix (snd (splitext p)) p"
  by (simp add: splitext_def Let_def suffix_drop)

lemma discover_supported: "item \<in> set (snd (discover fs st)) \<Longrightarrow> supported item"
  by (auto simp: discover_def Let_def split: prod.splits)

lemma filter_playlists_subset:
  "set (snd (filter_playlists nf st ps)) \<subseteq> set ps"
  by (auto simp: filter_playlists_def Let_def)

lemma read_playlists_names:
  "read_playlists fs ps sd = Inr sd' \<Longrightarrow> map entry_name sd' = map entry_name sd @ map name ps"
  by (induction ps arbitrary: sd) (auto split: sum.splits)

lemma read_playlists_opened:
  "read_playlists fs ps sd = Inr sd' \<Longrightarrow> p \<in> set ps \<Longrightarrow> \<exists>t. io_open fs (path p) = Inr t"
  by (induction ps arbitrary: sd) (auto split: sum.splits)

lemma read_playlists_length:
  "read_playlists fs ps sd = Inr sd' \<Longrightarrow> length sd' = length sd + length ps"
  by (induction ps arbitrary: sd) (auto split: sum.splits)

lemma run_returns:
  assumes "returned (run nf fs st kw) = Inr (Some sd)"
  shows "component kw = ''inputs'' \<and>
         read_playlists fs (snd (filter_playlists nf st (snd (discover fs st)))) [] = Inr sd"
  using assms by (auto simp: run_def Let_def split: prod.splits if_splits sum.splits)

lemma run_logged_inputs:
  "component kw = ''inputs'' \<Longrightarrow>
   logged (run nf fs st kw) =
     fst (discover fs st) @ [LogMatch (length (fst (filter_playlists nf st (snd (discover fs st)))))]"
  by (simp add: run_def Let_def split: prod.splits)

lemma read_playlists_fails:
  "p \<in> set ps \<Longrightarrow> io_open fs (path p) = Inl e \<Longrightarrow> \<exists>e'. read_playlists fs ps sd = Inl e'"
  by (induction ps arbitrary: sd) (auto split: sum.splits)

lemma discover_locked:
  "discover locked_csv pl_settings =
     ([LogFound 2], [\<lparr>name = ''Locked'', path = ''/pl/Locked.csv''\<rparr>, \<lparr>name = ''Top'', path = ''/pl/Top.csv''\<rparr>])"
  by (simp add: fs_eval locked_csv_def pl_settings_def Let_def)

lemma open_locked: "io_open locked_csv ''/pl/Locked.csv'' = Inl PermissionError"
  by (simp add: fs_eval locked_csv_def)

subsection \<open>Stripping trailing characters\<close>

lemma rstrip_prefix: "\<exists>t. s = rstrip s cs @ t \<and> set t \<subseteq> set cs"
proof -
  have "rev s = takeWhile (\<lambda>c. c \<in> set cs) (rev s) @ dropWhile (\<lambda>c. c \<in> set cs) (rev s)"
    by simp
  then have "s = rev (dropWhile (\<lambda>c. c \<in> set cs) (rev s)) @ rev (takeWhile (\<lambda>c. c \<in> set cs) (rev s))"
    by (metis rev_append rev_rev_ident)
  moreover have "set (rev (takeWhile (\<lambda>c. c \<in> set cs) (rev s))) \<subseteq> set cs"
    by (auto dest: set_takeWhileD)
  ultimately show ?thesis unfolding rstrip_def by blast
qed

lemma rstrip_last: "rstrip s cs \<noteq> [] \<Longrightarrow> last (rstrip s cs) \<notin> set cs"
  unfolding rstrip_def
  by (metis hd_dropWhile last_rev rev_is_Nil_conv)

lemma rstrip_replicate:
  assumes "b = [] \<or> last b \<noteq> c"
  shows "rstrip (b @ replicate n c) [c] = b"
proof -
  have "dropWhile (\<lambda>x. x \<in> set [c]) (rev b) = rev b"
    using assms by (cases b rule: rev_cases) auto
  moreover have "dropWhile (\<lambda>x. x \<in> set [c]) (replicate n c @ rev b) =
      dropWhile (\<lambda>x. x \<in> set [c]) (rev b)"
    by (rule dropWhile_append2) simp
  ultimately show ?thesis
    by (simp add: rstrip_def)
qed

lemma rstrip_stripped:
  "\<exists>k. s = rstrip s [c] @ replicate k c"
proof -
  obtain t where t: "s = rstrip s [c] @ t" "set t \<subseteq> set [c]"
    using rstrip_prefix by blast
  then have "t = replicate (length t) c"
    by (intro replicate_eqI) auto
  with t(1) show ?thesis by metis
qed

subsection \<open>Rows and songs\<close>

declare reader_rows.simps [simp del]

lemma make_song_short: "length songRow < 4 \<Longrightarrow> make_song songRow = Inl IndexError"
  by (auto simp: make_song_def getitem_def split: sum.splits)

lemma make_song_long: "4 \<le> length songRow \<Longrightarrow> make_song songRow = Inr (song_of_row songRow)"
  by (auto simp: make_song_def getitem_def song_of_row_def)

lemma read_rows_short:
  "list_ex (\<lambda>row. length row < 4) (fst (reader_rows ls)) \<Longrightarrow> read_rows ls acc = Inl IndexError"
proof (induction ls acc rule: read_rows.induct)
  case (1 ls acc)
  show ?case
  proof (cases "Reader_iternext ls")
    case (Inl e)
    with "1.prems" show ?thesis by (simp add: reader_rows.simps [of ls])
  next
    case (Inr res)
    show ?thesis
    proof (cases res)
      case None
      with Inr "1.prems" show ?thesis by (simp add: reader_rows.simps [of ls])
    next
      case (Some rr)
      obtain row rest where rr: "rr = (row, rest)" by (cases rr)
      show ?thesis
      proof (cases "length row < 4")
        case True
        with Inr Some rr show ?thesis
          by (simp add: read_rows.simps [of ls] make_song_short)
      next
        case False
        then have ms: "make_song row = Inr (song_of_row row)" by (simp add: make_song_long)
        from "1.prems" Inr Some rr False
        have "list_ex (\<lambda>row. length row < 4) (fst (reader_rows rest))"
          by (simp add: reader_rows.simps [of ls] split: prod.splits)
        with "1.IH" [OF Inr Some rr [symmetric] ms]
        have "read_rows rest (acc @ [song_of_row row]) = Inl IndexError" by simp
        with Inr Some rr ms show ?thesis
          by (simp add: read_rows.simps [of ls])
      qed
    qed
  qed
qed

lemma read_rows_long:
  "list_all (\<lambda>row. 4 \<le> length row) (fst (reader_rows ls)) \<Longrightarrow> snd (reader_rows ls) = None \<Longrightarrow>
   read_rows ls acc = Inr (acc @ map song_of_row (fst (reader_rows ls)))"
proof (induction ls acc rule: read_rows.induct)
  case (1 ls acc)
  show ?case
  proof (cases "Reader_iternext ls")
    case (Inl e)
    with "1.prems" show ?thesis by (simp add: reader_rows.simps [of ls])
  next
    case (Inr res)
    show ?thesis
    proof (cases res)
      case None
      with Inr show ?thesis
        by (simp add: reader_rows.simps [of ls] read_rows.simps [of ls])
    next
      case (Some rr)
      obtain row rest where rr: "rr = (row, rest)" by (cases rr)
      from "1.prems" Inr Some rr
      have len: "4 \<le> length row"
        and rest: "list_all (\<lambda>row. 4 \<le> length row) (fst (reader_rows rest))"
        and ok: "snd (reader_rows rest) = None"
        and rows: "fst (reader_rows ls) = row # fst (reader_rows rest)"
        by (simp_all add: reader_rows.simps [of ls] split: prod.splits)
      from len have ms: "make_song row = Inr (song_of_row row)" by (simp add: make_song_long)
      from "1.IH" [OF Inr Some rr [symmetric] ms rest ok]
      have "read_rows rest (acc @ [song_of_row row]) =
          Inr ((acc @ [song_of_row row]) @ map song_of_row (fst (reader_rows rest)))" .
      with Inr Some rr ms rows show ?thesis
        by (simp add: read_rows.simps [of ls])
    qed
  qed
qed

lemma rows_mix:
  "reader_rows (file_lines mix_csv) =
     ([[''A'', ''T'', ''Al'', ''ISRC1''], [''badrow''], [''B'', ''T2'', ''Al2'', ''ISRC2'']], None)"
  apply (simp add: file_lines_def mix_csv_def)
  apply (subst reader_rows.simps, simp add: csv_eval)
  apply (subst reader_rows.simps, simp add: csv_eval)
  apply (subst reader_rows.simps, simp add: csv_eval)
  apply (subst reader_rows.simps, simp add: csv_eval)
  done

lemma rows_top_reader:
  "reader_rows (file_lines top_csv) =
     ([[''Queen'', ''Bohemian Rhapsody'', ''A Night at the Opera'', ''GBUM71029604''],
       [''ABBA'', ''Dancing Queen'', ''Arrival'', ''SEAB89800001'']], None)"
  apply (simp add: lines_top)
  apply (subst reader_rows.simps, simp add: csv_eval row_queen_def)
  apply (subst reader_rows.simps, simp add: csv_eval row_abba_def)
  apply (subst reader_rows.simps, simp add: csv_eval)
  done

lemma discover_mix:
  "discover pl_mix pl_settings = ([LogFound 1], [\<lparr>name = ''Mix'', path = ''/pl/Mix.csv''\<rparr>])"
  by (simp add: fs_eval pl_mix_def pl_settings_def Let_def)

lemma open_mix: "io_open pl_mix ''/pl/Mix.csv'' = Inr mix_csv"
  by (simp add: fs_eval pl_mix_def)

lemma read_mix: "read_rows (file_lines mix_csv) [] = Inl IndexError"
  by (rule read_rows_short) (simp add: rows_mix)

subsection \<open>Extensions of joined paths and the walk\<close>

lemma rfind_lower: "- 1 \<le> rfind xs c"
  by (induction xs) (auto simp: Let_def)

lemma rfind_append:
  "rfind (xs @ ys) c = (if 0 \<le> rfind ys c then int (length xs) + rfind ys c else rfind xs c)"
  using rfind_lower [of ys c] by (induction xs) (auto simp: Let_def)

lemma rfind_upper: "rfind xs c < int (length xs)"
  by (induction xs) (auto simp: Let_def)

lemma rfind_notin: "c \<notin> set xs \<Longrightarrow> rfind xs c = - 1"
  by (induction xs) (auto simp: Let_def)

lemma splitext_prefix:
  assumes "SLASH \<notin> set item" and "pre = [] \<or> last pre = SLASH"
  shows "snd (splitext (pre @ item)) = snd (splitext item)"
proof -
  have sep_item: "rfind item SLASH = - 1" using assms(1) by (rule rfind_notin)
  have sep: "rfind (pre @ item) SLASH = int (length pre) - 1"
    and dot_pre: "rfind pre DOT < int (length pre) - 1 \<or> pre = []"
  proof -
    show "rfind (pre @ item) SLASH = int (length pre) - 1"
    proof (cases pre rule: rev_cases)
      case Nil
      then show ?thesis by (simp add: sep_item)
    next
      case (snoc pre' c)
      with assms(2) have "c = SLASH" by simp
      with snoc show ?thesis by (simp add: rfind_append sep_item)
    qed
    show "rfind pre DOT < int (length pre) - 1 \<or> pre = []"
    proof (cases pre rule: rev_cases)
      case Nil
      then show ?thesis by simp
    next
      case (snoc pre' c)
      with assms(2) have "c = SLASH" by simp
      with snoc rfind_upper [of pre' DOT] show ?thesis by (simp add: rfind_append)
    qed
  qed
  show ?thesis
  proof (cases "0 \<le> rfind item DOT")
    case True
    then have dot: "rfind (pre @ item) DOT = int (length pre) + rfind item DOT"
      by (simp add: rfind_append)
    from True have n: "nat (int (length pre) + rfind item DOT) = length pre + nat (rfind item DOT)"
      by (simp add: nat_add_distrib)
    from True show ?thesis
      by (simp add: splitext_def Let_def sep dot sep_item n)
  next
    case False
    with rfind_lower [of item DOT] have d: "rfind item DOT = - 1" by simp
    then have dot: "rfind (pre @ item) DOT = rfind pre DOT"
      by (simp add: rfind_append)
    from dot_pre rfind_lower [of pre DOT] have "\<not> int (length pre) - 1 < rfind pre DOT"
      by auto
    with d show ?thesis
      by (simp add: splitext_def Let_def sep dot sep_item)
  qed
qed

lemma join_prefix:
  assumes "valid_name item"
  shows "\<exists>pre. join root item = pre @ item \<and> (pre = [] \<or> last pre = SLASH)"
proof -
  from assms have "item \<noteq> []" "hd item \<noteq> SLASH"
    by (auto simp: valid_name_def dest: hd_in_set)
  then show ?thesis
    by (cases "root = []"; cases "last root = SLASH")
       (auto simp: join_def intro: exI [of _ "root @ [SLASH]"] exI [of _ "root"] exI [of _ "[]"])
qed

lemma supported_candidate:
  assumes "valid_name item"
  shows "supported (candidate root item) = has_supported_ext item"
proof -
  from join_prefix [OF assms] obtain pre
    where "join root item = pre @ item" "pre = [] \<or> last pre = SLASH" by blast
  moreover from assms have "SLASH \<notin> set item" by (simp add: valid_name_def)
  ultimately have "snd (splitext (join root item)) = snd (splitext item)"
    by (simp add: splitext_prefix)
  then show ?thesis
    by (simp add: supported_def candidate_def has_supported_ext_def)
qed

lemma valid_entries_names: "valid_entries es \<Longrightarrow> e \<in> set es \<Longrightarrow> valid_name (fst e)"
  by (induction es) auto

lemma filter_supported_candidates:
  assumes "\<And>item. item \<in> set items \<Longrightarrow> valid_name item"
  shows "filter supported (map (candidate root) items) =
         map (candidate root) (filter has_supported_ext items)"
  using assms by (induction items) (auto simp: supported_candidate)

definition candidates_of :: "(string \<times> string list \<times> string list) list \<Rightarrow> playlist list" where
  "candidates_of w = concat (map (\<lambda>(root, _, files). map (candidate root) files) w)"

lemma candidates_of_simps [simp]:
  "candidates_of [] = []"
  "candidates_of ((root, ds, files) # w) = map (candidate root) files @ candidates_of w"
  "candidates_of (w1 @ w2) = candidates_of w1 @ candidates_of w2"
  by (simp_all add: candidates_of_def)

lemma count_entries_split:
  "count_entries es =
     length (filter (\<lambda>e. \<not> is_dir (snd e) \<and> has_supported_ext (fst e)) es) +
     sum_list (map (\<lambda>e. if is_dir (snd e) then count_files (snd e) else 0) es)"
  by (induction es) auto

lemma walk_counts:
  "valid_tree nd \<Longrightarrow>
     length (filter supported (candidates_of (walk_node tp nd))) = count_files nd"
  "valid_entries es \<Longrightarrow>
     length (filter supported (candidates_of (walk_entries tp es))) =
     sum_list (map (\<lambda>e. if is_dir (snd e) then count_files (snd e) else 0) es)"
proof (induction tp nd and tp es rule: walk_node_walk_entries.induct)
  case (1 tp r t)
  then show ?case by simp
next
  case (2 tp r es)
  show ?case
  proof (cases r)
    case False
    then show ?thesis by simp
  next
    case True
    from "2.prems" have v: "valid_entries es" by simp
    let ?files = "map fst (filter (\<lambda>e. \<not> is_dir (snd e)) es)"
    have names: "\<And>item. item \<in> set ?files \<Longrightarrow> valid_name item"
      using v by (auto dest: valid_entries_names)
    have "length (filter supported (map (candidate tp) ?files)) =
          length (filter has_supported_ext ?files)"
      by (simp only: filter_supported_candidates [OF names] length_map)
    also have "\<dots> = length (filter (\<lambda>e. \<not> is_dir (snd e) \<and> has_supported_ext (fst e)) es)"
      by (induction es) auto
    finally have here: "length (filter supported (map (candidate tp) ?files)) =
        length (filter (\<lambda>e. \<not> is_dir (snd e) \<and> has_supported_ext (fst e)) es)" .
    have "length (filter supported (candidates_of (walk_node tp (Dir r es)))) =
          length (filter supported (map (candidate tp) ?files)) +
          length (filter supported (candidates_of (walk_entries tp es)))"
      using True by simp
    with here "2.IH" [OF True v] show ?thesis
      using True by (simp only: count_files.simps count_entries_split [of es] if_True)
  qed
next
  case (3 tp)
  then show ?case by simp
next
  case (4 tp e es)
  from "4.prems" have ve: "valid_tree (snd e)" and vs: "valid_entries es" by simp_all
  show ?case
  proof (cases "is_dir (snd e)")
    case True
    with "4.IH"(1) [OF True ve] "4.IH"(2) [OF vs] show ?thesis by simp
  next
    case False
    with "4.IH"(2) [OF vs] show ?thesis by simp
  qed
qed

lemma resolve_pl_tree: "resolve pl_tree ''/pl'' = Inr (Dir True pl_entries)"
  by (simp add: resolve_def split_path_def pl_tree_def)

lemma normalize_pl: "normalize_dir ''/pl'' = ''/pl''"
  by (simp add: normalize_dir_def rstrip_def)

lemma ext_eval:
  "has_supported_ext ''Top.csv''" "\<not> has_supported_ext ''notes.txt''"
  "\<not> has_supported_ext ''sub''" "\<not> has_supported_ext ''private''"
  "has_supported_ext ''Deep.csv''" "\<not> has_supported_ext ''cover.jpg''"
  "\<not> has_supported_ext ''sub2''" "has_supported_ext ''Deeper.csv''"
  by (simp_all add: has_supported_ext_def splitext_def supported_playlist_extensions_def)

lemma valid_pl_entries: "valid_entries pl_entries"
  by (simp add: pl_entries_def valid_name_def)

lemma count_pl_entries: "count_entries pl_entries = 3"
  by (simp add: pl_entries_def ext_eval)

lemma supported_pl_entries:
  "length (supported_files pl_entries) = 1" "length (unsupported_entries pl_entries) = 3"
  "length pl_entries = 4"
  by (simp_all add: pl_entries_def supported_files_def unsupported_entries_def ext_eval)

section \<open>The claims\<close>

text \<open>
  C1. In the input role, on a directory \<^verbatim>\<open>/pl\<close> whose only file \<^verbatim>\<open>Top.csv\<close> has the rows
  \<^verbatim>\<open>Queen,Bohemian Rhapsody,A Night at the Opera,GBUM71029604\<close> and
  \<^verbatim>\<open>ABBA,Dancing Queen,Arrival,SEAB89800001\<close>, with \<^verbatim>\<open>recursive\<close> set to \<^verbatim>\<open>"No"\<close> and an
  empty filter, \<^verbatim>\<open>run\<close> returns exactly one entry named \<^verbatim>\<open>Top\<close> whose songs are the two
  rows in file order, columns 0 to 3 giving artist, title, album and isrc. It holds for
  every regular expression matcher, since the pattern is empty, and whether the rows end
  with a line feed, with carriage return and line feed, or the last row has no line end.
\<close>

theorem run_top_csv:
  "returned (run (filter_list re_search) pl_top pl_settings
      \<lparr>component = ''inputs'', songs_dict = sd\<rparr>) =
     Inr (Some [\<lparr>entry_name = ''Top'', entry_id = [], songs = [queen, abba]\<rparr>]) \<and>
   returned (run (filter_list re_search) pl_top_crlf pl_settings
      \<lparr>component = ''inputs'', songs_dict = sd\<rparr>) =
     Inr (Some [\<lparr>entry_name = ''Top'', entry_id = [], songs = [queen, abba]\<rparr>]) \<and>
   returned (run (filter_list re_search) pl_top_bare pl_settings
      \<lparr>component = ''inputs'', songs_dict = sd\<rparr>) =
     Inr (Some [\<lparr>entry_name = ''Top'', entry_id = [], songs = [queen, abba]\<rparr>])"
  by (simp add: run_def discover_pl_top discover_pl_top_variants filter_playlists_def
        filter_list_def pattern_pl_settings open_top open_top_variants lines_top
        lines_top_variants rows_top rows_top_bare)

text \<open>
  C2, as amended. The claim says that a row with fewer than 4 columns is logged and skipped
  and that the rest of the file is still read. The loop body indexes the row outside any
  \<^verbatim>\<open>try\<close>: as soon as the reader yields a row with fewer than 4 columns,
  \<^verbatim>\<open>IndexError\<close> ends the loop and no song of the file is returned. A file all of whose
  rows have at least 4 columns yields one song for each row, in file order, from the
  columns 0 to 3.
\<close>

theorem short_row_aborts_file:
  "(list_ex (\<lambda>row. length row < 4) (fst (reader_rows ls)) \<longrightarrow>
      read_rows ls acc = Inl IndexError) \<and>
   (list_all (\<lambda>row. 4 \<le> length row) (fst (reader_rows ls)) \<and> snd (reader_rows ls) = None \<longrightarrow>
      read_rows ls acc = Inr (acc @ map song_of_row (fst (reader_rows ls))))"
  using read_rows_short read_rows_long by blast

text \<open>
  C2 fails as stated: for the file with the rows \<^verbatim>\<open>A,T,Al,ISRC1\<close>, \<^verbatim>\<open>badrow\<close> and
  \<^verbatim>\<open>B,T2,Al2,ISRC2\<close>, \<^verbatim>\<open>run\<close> raises \<^verbatim>\<open>IndexError\<close> instead of returning the two
  songs, and no error is logged.
\<close>

theorem malformed_row_counterexample:
  "returned (run (filter_list match_all) pl_mix pl_settings as_inputs) = Inl IndexError \<and>
   logged (run (filter_list match_all) pl_mix pl_settings as_inputs) = [LogFound 1, LogMatch 1]"
  by (simp add: run_def discover_mix filter_playlists_def filter_list_def pattern_pl_settings
        open_mix read_mix as_inputs_def)

text \<open>The amended C2 at the file with the malformed row and at \<^verbatim>\<open>Top.csv\<close>.\<close>

theorem short_row_aborts_file_witness:
  "list_ex (\<lambda>row. length row < 4) (fst (reader_rows (file_lines mix_csv))) \<and>
   read_rows (file_lines mix_csv) [] = Inl IndexError \<and>
   list_all (\<lambda>row. 4 \<le> length row) (fst (reader_rows (file_lines top_csv))) \<and>
   snd (reader_rows (file_lines top_csv)) = None \<and>
   read_rows (file_lines top_csv) [] = Inr [queen, abba]"
proof -
  have a: "list_ex (\<lambda>row. length row < 4) (fst (reader_rows (file_lines mix_csv)))"
    by (simp add: rows_mix)
  have b: "list_all (\<lambda>row. 4 \<le> length row) (fst (reader_rows (file_lines top_csv)))"
    "snd (reader_rows (file_lines top_csv)) = None"
    by (simp_all add: rows_top_reader)
  from short_row_aborts_file [of "file_lines mix_csv" "[]"] a
  have c: "read_rows (file_lines mix_csv) [] = Inl IndexError" by blast
  from short_row_aborts_file [of "file_lines top_csv" "[]"] b
  have "read_rows (file_lines top_csv) [] = Inr ([] @ map song_of_row (fst (reader_rows (file_lines top_csv))))"
    by blast
  then have d: "read_rows (file_lines top_csv) [] = Inr [queen, abba]"
    by (simp add: rows_top_reader song_of_row_def queen_def abba_def)
  from a b c d show ?thesis by simp
qed


text \<open>
  C4, as amended. The claim says that a playlist file that fails to open is logged and left
  out while the run goes on. \<^verbatim>\<open>run\<close> opens each file with \<^verbatim>\<open>io.open\<close> outside any
  \<^verbatim>\<open>try\<close>: in the input role, when a playlist that passed the name filter cannot be
  opened, an exception leaves \<^verbatim>\<open>run\<close>, no result set is returned, and nothing is logged
  beyond the two counts.
\<close>

theorem unopened_file_aborts_run:
  assumes "component kw = ''inputs''"
    and "p \<in> set (snd (filter_playlists nf st (snd (discover fs st))))"
    and "io_open fs (path p) = Inl e"
  shows "(\<exists>e'. returned (run nf fs st kw) = Inl e') \<and>
         logged (run nf fs st kw) =
           fst (discover fs st) @
           [LogMatch (length (fst (filter_playlists nf st (snd (discover fs st)))))]"
proof -
  from read_playlists_fails [OF assms(2,3)]
  obtain e' where "read_playlists fs (snd (filter_playlists nf st (snd (discover fs st)))) [] = Inl e'"
    by blast
  with assms(1) have "returned (run nf fs st kw) = Inl e'"
    by (auto simp: run_def Let_def split: prod.splits)
  with run_logged_inputs [OF assms(1)] show ?thesis by blast
qed

text \<open>
  C4 fails as stated: with an unreadable \<^verbatim>\<open>Locked.csv\<close> next to a readable
  \<^verbatim>\<open>Top.csv\<close>, \<^verbatim>\<open>run\<close> raises \<^verbatim>\<open>PermissionError\<close> instead of returning the entry for
  \<^verbatim>\<open>Top\<close>, and the log holds no error.
\<close>

theorem unreadable_file_counterexample:
  "returned (run (filter_list match_all) locked_csv pl_settings as_inputs) = Inl PermissionError \<and>
   logged (run (filter_list match_all) locked_csv pl_settings as_inputs) = [LogFound 2, LogMatch 2]"
  by (simp add: run_def discover_locked filter_playlists_def filter_list_def pattern_pl_settings
        open_locked as_inputs_def)

text \<open>The amended C4 at that directory.\<close>

theorem unopened_file_aborts_run_witness:
  "component as_inputs = ''inputs'' \<and>
   io_open locked_csv ''/pl/Locked.csv'' = Inl PermissionError \<and>
   (\<exists>e'. returned (run (filter_list match_all) locked_csv pl_settings as_inputs) = Inl e')"
proof -
  have c: "component as_inputs = ''inputs''" by (simp add: as_inputs_def)
  have p: "\<lparr>name = ''Locked'', path = ''/pl/Locked.csv''\<rparr>
      \<in> set (snd (filter_playlists (filter_list match_all) pl_settings (snd (discover locked_csv pl_settings))))"
    by (simp add: discover_locked filter_playlists_def filter_list_def pattern_pl_settings)
  have o: "io_open locked_csv (path \<lparr>name = ''Locked'', path = ''/pl/Locked.csv''\<rparr>) = Inl PermissionError"
    by (simp add: open_locked)
  from unopened_file_aborts_run [OF c p o] c open_locked show ?thesis by blast
qed

text \<open>
  C5. The claim says that when the configured directory cannot be listed or walked, the
  error is logged, no playlist is found and the run does not abort. For a directory that
  does not exist, the run returns an empty result in both modes, yet only the non recursive
  mode logs the error: \<^verbatim>\<open>os.walk\<close> ignores the failure, so the handler of the
  \<^verbatim>\<open>try\<close> around both modes is never reached in recursive mode.
\<close>

theorem missing_directory_recursive_not_logged:
  "logged (run (filter_list match_all) pl_top (missing_settings ''Yes'') as_inputs) =
     [LogFound 0, LogMatch 0] \<and>
   returned (run (filter_list match_all) pl_top (missing_settings ''Yes'') as_inputs) =
     Inr (Some []) \<and>
   logged (run (filter_list match_all) pl_top (missing_settings ''No'') as_inputs) =
     [LogError FileNotFoundError, LogFound 0, LogMatch 0] \<and>
   returned (run (filter_list match_all) pl_top (missing_settings ''No'') as_inputs) =
     Inr (Some [])"
  by (simp add: run_def fs_eval filter_list_def missing_settings_def as_inputs_def pl_top_def Let_def)

text \<open>
  C6. For a directory that can be listed and whose names are well formed: in recursive mode
  the discovery yields as many candidates as there are regular files with a supported
  extension at any depth; in non recursive mode the candidates are the entries of the
  directory itself whose name has a supported extension, so nothing below a subdirectory is
  found, and when the directory holds N regular files with a supported extension and M
  entries without one, and nothing else, there are exactly N candidates whatever M is.
\<close>

theorem discovery_counts:
  assumes "resolve fs (normalize_dir (dir st)) = Inr (Dir True es)" and "valid_entries es"
  shows "(recursive st = ''Yes'' \<longrightarrow> length (snd (discover fs st)) = count_entries es) \<and>
         (recursive st \<noteq> ''Yes'' \<longrightarrow>
            map path (snd (discover fs st)) =
              map (join (normalize_dir (dir st))) (filter has_supported_ext (map fst es))) \<and>
         (recursive st \<noteq> ''Yes'' \<and>
          length (supported_files es) + length (unsupported_entries es) = length es \<longrightarrow>
            length (snd (discover fs st)) = length (supported_files es))"
proof (intro conjI impI)
  assume "recursive st = ''Yes''"
  with assms(1) have "snd (discover fs st) =
      filter supported (candidates_of (walk_node (normalize_dir (dir st)) (Dir True es)))"
    by (simp add: discover_def list_playlists_def os_walk_def Let_def candidates_of_def)
  moreover have "valid_tree (Dir True es)" using assms(2) by simp
  ultimately show "length (snd (discover fs st)) = count_entries es"
    using walk_counts(1) [of "Dir True es" "normalize_dir (dir st)"] by simp
next
  assume "recursive st \<noteq> ''Yes''"
  with assms(1) have d: "snd (discover fs st) =
      filter supported (map (candidate (normalize_dir (dir st))) (map fst es))"
    by (simp add: discover_def list_playlists_def os_listdir_def Let_def)
  have names: "\<And>item. item \<in> set (map fst es) \<Longrightarrow> valid_name item"
    using assms(2) by (auto dest: valid_entries_names)
  have "map path (map (candidate (normalize_dir (dir st))) items) =
      map (join (normalize_dir (dir st))) items" for items
    by (simp add: candidate_def comp_def)
  then show "map path (snd (discover fs st)) =
      map (join (normalize_dir (dir st))) (filter has_supported_ext (map fst es))"
    by (simp only: d filter_supported_candidates [OF names])
next
  assume a: "recursive st \<noteq> ''Yes'' \<and>
      length (supported_files es) + length (unsupported_entries es) = length es"
  with assms(1) have d: "snd (discover fs st) =
      filter supported (map (candidate (normalize_dir (dir st))) (map fst es))"
    by (simp add: discover_def list_playlists_def os_listdir_def Let_def)
  have names: "\<And>item. item \<in> set (map fst es) \<Longrightarrow> valid_name item"
    using assms(2) by (auto dest: valid_entries_names)
  have "length (snd (discover fs st)) = length (filter has_supported_ext (map fst es))"
    by (simp only: d filter_supported_candidates [OF names] length_map)
  then have l: "length (snd (discover fs st)) = length (filter (\<lambda>e. has_supported_ext (fst e)) es)"
    by (simp add: filter_map comp_def)
  have "length (filter (\<lambda>e. has_supported_ext (fst e)) es) + length (unsupported_entries es) = length es"
    unfolding unsupported_entries_def by (rule sum_length_filter_compl)
  with a l show "length (snd (discover fs st)) = length (supported_files es)" by simp
qed

text \<open>
  C6 at a directory with one playlist file, a text file, a subdirectory that holds two more
  playlist files at two depths, and a directory that cannot be listed.
\<close>

theorem discovery_counts_witness:
  "resolve pl_tree (normalize_dir (dir pl_settings)) = Inr (Dir True pl_entries) \<and>
   valid_entries pl_entries \<and>
   length (snd (discover pl_tree pl_recursive)) = 3 \<and>
   length (supported_files pl_entries) + length (unsupported_entries pl_entries) =
     length pl_entries \<and>
   length (snd (discover pl_tree pl_settings)) = 1 \<and>
   map path (snd (discover pl_tree pl_settings)) = [''/pl/Top.csv'']"
proof -
  have r1: "resolve pl_tree (normalize_dir (dir pl_settings)) = Inr (Dir True pl_entries)"
    by (simp add: pl_settings_def normalize_pl resolve_pl_tree)
  have r2: "resolve pl_tree (normalize_dir (dir pl_recursive)) = Inr (Dir True pl_entries)"
    by (simp add: pl_recursive_def normalize_pl resolve_pl_tree)
  have m1: "recursive pl_settings \<noteq> ''Yes''" by (simp add: pl_settings_def)
  have m2: "recursive pl_recursive = ''Yes''" by (simp add: pl_recursive_def)
  have nm: "length (supported_files pl_entries) + length (unsupported_entries pl_entries) =
      length pl_entries"
    by (simp add: supported_pl_entries)
  have names: "filter has_supported_ext (map fst pl_entries) = [''Top.csv'']"
    by (simp add: pl_entries_def ext_eval)
  from discovery_counts [OF r2 valid_pl_entries] m2
  have a: "length (snd (discover pl_tree pl_recursive)) = 3"
    by (simp add: count_pl_entries)
  from discovery_counts [OF r1 valid_pl_entries] m1 nm
  have b: "length (snd (discover pl_tree pl_settings)) = 1"
    and c: "map path (snd (discover pl_tree pl_settings)) = [''/pl/Top.csv'']"
    by (simp_all add: supported_pl_entries names pl_settings_def normalize_pl join_def)
  from r1 valid_pl_entries a nm b c show ?thesis by simp
qed

text \<open>
  C7. Whenever \<^verbatim>\<open>run\<close> returns in the input role, the names of the returned entries are
  the discovered names that the name filter returned, in discovery order. With the name
  filter of the spec this is the list the filter returns for the discovered names, and for
  the empty pattern it is the list of all discovered names.
\<close>

theorem run_names_are_filtered_names:
  assumes "returned (run nf fs st kw) = Inr (Some sd)"
  shows "map entry_name sd =
           filter (\<lambda>n. n \<in> set (nf (map name (snd (discover fs st))) (filter_pattern st)))
             (map name (snd (discover fs st))) \<and>
         (nf = filter_list re_search \<longrightarrow>
            map entry_name sd =
              filter_list re_search (map name (snd (discover fs st))) (filter_pattern st)) \<and>
         (nf = filter_list re_search \<and> filter_pattern st = [] \<longrightarrow>
            map entry_name sd = map name (snd (discover fs st)))"
proof -
  let ?ps = "snd (discover fs st)"
  from run_returns [OF assms]
  have "read_playlists fs (snd (filter_playlists nf st ?ps)) [] = Inr sd" by simp
  then have "map entry_name sd = map name (snd (filter_playlists nf st ?ps))"
    by (auto dest: read_playlists_names)
  then have a: "map entry_name sd =
      filter (\<lambda>n. n \<in> set (nf (map name ?ps) (filter_pattern st))) (map name ?ps)"
    by (simp add: filter_playlists_def Let_def filter_map comp_def)
  have b: "filter (\<lambda>n. n \<in> set (filter_list re_search ns pat)) ns = filter_list re_search ns pat"
    for ns pat
    by (auto simp: filter_list_def intro: filter_cong)
  have c: "filter_list re_search ns [] = ns" for ns
    by (simp add: filter_list_def)
  from a b c show ?thesis by auto
qed

text \<open>C7 at the directory \<^verbatim>\<open>/pl\<close> with the empty pattern.\<close>

theorem run_names_are_filtered_names_witness:
  "returned (run (filter_list match_all) pl_top pl_settings as_inputs) =
     Inr (Some [\<lparr>entry_name = ''Top'', entry_id = [], songs = [queen, abba]\<rparr>]) \<and>
   map entry_name [\<lparr>entry_name = ''Top'', entry_id = [], songs = [queen, abba]\<rparr>] =
     filter_list match_all (map name (snd (discover pl_top pl_settings))) (filter_pattern pl_settings) \<and>
   map name (snd (discover pl_top pl_settings)) = [''Top'']"
proof -
  have r: "returned (run (filter_list match_all) pl_top pl_settings as_inputs) =
     Inr (Some [\<lparr>entry_name = ''Top'', entry_id = [], songs = [queen, abba]\<rparr>])"
    by (simp add: run_def discover_pl_top filter_playlists_def filter_list_def pattern_pl_settings
        open_top lines_top rows_top as_inputs_def)
  from run_names_are_filtered_names [OF r, of match_all] r show ?thesis
    by (simp add: discover_pl_top)
qed

text \<open>
  C8. Every playlist that is left after the extension filter has a path whose extension,
  as \<^verbatim>\<open>os.path.splitext\<close> gives it, is one of the supported extensions, so its path ends
  in \<^verbatim>\<open>.csv\<close>. The discovery does not look at the role, and the recursion mode is
  arbitrary.
\<close>

theorem discovered_extension_supported:
  assumes "item \<in> set (snd (discover fs st))"
  shows "snd (splitext (path item)) \<in> set supported_playlist_extensions \<and>
         suffix ''.csv'' (path item)"
proof -
  from assms have s: "supported item" by (rule discover_supported)
  then have "snd (splitext (path item)) = ''.csv''"
    by (simp add: supported_def supported_playlist_extensions_def)
  with splitext_suffix [of "path item"] s show ?thesis
    by (simp add: supported_def)
qed

text \<open>C8 at the directory \<^verbatim>\<open>/pl\<close>.\<close>

theorem discovered_extension_supported_witness:
  "\<lparr>name = ''Top'', path = ''/pl/Top.csv''\<rparr> \<in> set (snd (discover pl_top pl_settings)) \<and>
   snd (splitext ''/pl/Top.csv'') \<in> set supported_playlist_extensions \<and>
   suffix ''.csv'' ''/pl/Top.csv''"
proof -
  have h: "\<lparr>name = ''Top'', path = ''/pl/Top.csv''\<rparr> \<in> set (snd (discover pl_top pl_settings))"
    by (simp add: discover_pl_top)
  show ?thesis using h discovered_extension_supported [OF h] by simp
qed

text \<open>
  C9, as amended. The claim says that all trailing separators are stripped, in any mixed
  order. Line 76 makes two passes in a fixed order, the trailing forward slashes first and
  the trailing back slashes after. Every path is some \<open>b\<close> followed by \<open>m\<close> back slashes and
  then \<open>n\<close> forward slashes, where \<open>b\<close> does not end in a back slash and, when \<open>m = 0\<close>, not
  in a forward slash either; the result is that \<open>b\<close>. So forward slashes that stand before
  the trailing back slashes are kept. Only separators are removed, the result never ends in
  a back slash, and the transformation has no error case.
\<close>

theorem normalize_dir_two_passes:
  "(\<exists>b m n. d = b @ replicate m BACKSLASH @ replicate n SLASH \<and>
      (b = [] \<or> last b \<noteq> BACKSLASH) \<and> (m = 0 \<longrightarrow> b = [] \<or> last b \<noteq> SLASH) \<and>
      normalize_dir d = b) \<and>
   ((b = [] \<or> last b \<noteq> BACKSLASH) \<and> (m = 0 \<longrightarrow> b = [] \<or> last b \<noteq> SLASH) \<longrightarrow>
      normalize_dir (b @ replicate m BACKSLASH @ replicate n SLASH) = b) \<and>
   (\<exists>t. d = normalize_dir d @ t \<and> set t \<subseteq> {SLASH, BACKSLASH}) \<and>
   \<not> suffix [BACKSLASH] (normalize_dir d)"
proof (intro conjI impI)
  obtain n where n: "d = rstrip d [SLASH] @ replicate n SLASH"
    using rstrip_stripped by blast
  obtain m where m: "rstrip d [SLASH] = normalize_dir d @ replicate m BACKSLASH"
    unfolding normalize_dir_def using rstrip_stripped by blast
  have b1: "normalize_dir d = [] \<or> last (normalize_dir d) \<noteq> BACKSLASH"
    using rstrip_last [of "rstrip d [SLASH]" "[BACKSLASH]"] by (auto simp: normalize_dir_def)
  have b2: "m = 0 \<longrightarrow> normalize_dir d = [] \<or> last (normalize_dir d) \<noteq> SLASH"
  proof
    assume "m = 0"
    with m have "normalize_dir d = rstrip d [SLASH]" by simp
    with rstrip_last [of d "[SLASH]"] show "normalize_dir d = [] \<or> last (normalize_dir d) \<noteq> SLASH"
      by auto
  qed
  from n m have "d = normalize_dir d @ replicate m BACKSLASH @ replicate n SLASH" by simp
  with b1 b2 show "\<exists>b m n. d = b @ replicate m BACKSLASH @ replicate n SLASH \<and>
      (b = [] \<or> last b \<noteq> BACKSLASH) \<and> (m = 0 \<longrightarrow> b = [] \<or> last b \<noteq> SLASH) \<and>
      normalize_dir d = b"
    by blast
next
  assume h: "(b = [] \<or> last b \<noteq> BACKSLASH) \<and> (m = 0 \<longrightarrow> b = [] \<or> last b \<noteq> SLASH)"
  have "(b @ replicate m BACKSLASH) = [] \<or> last (b @ replicate m BACKSLASH) \<noteq> SLASH"
    using h by (cases m) auto
  then have "rstrip ((b @ replicate m BACKSLASH) @ replicate n SLASH) [SLASH] =
      b @ replicate m BACKSLASH"
    by (rule rstrip_replicate)
  moreover have "rstrip (b @ replicate m BACKSLASH) [BACKSLASH] = b"
    using h by (intro rstrip_replicate) auto
  ultimately show "normalize_dir (b @ replicate m BACKSLASH @ replicate n SLASH) = b"
    by (simp add: normalize_dir_def)
next
  obtain t1 where t1: "d = rstrip d [SLASH] @ t1" "set t1 \<subseteq> set [SLASH]"
    using rstrip_prefix by blast
  obtain t2 where t2: "rstrip d [SLASH] = normalize_dir d @ t2" "set t2 \<subseteq> set [BACKSLASH]"
    unfolding normalize_dir_def using rstrip_prefix by blast
  from t1 t2 have "d = normalize_dir d @ (t2 @ t1)" by simp
  moreover from t1 t2 have "set (t2 @ t1) \<subseteq> {SLASH, BACKSLASH}" by auto
  ultimately show "\<exists>t. d = normalize_dir d @ t \<and> set t \<subseteq> {SLASH, BACKSLASH}" by blast
next
  show "\<not> suffix [BACKSLASH] (normalize_dir d)"
  proof
    assume "suffix [BACKSLASH] (normalize_dir d)"
    then obtain u where u: "normalize_dir d = u @ [BACKSLASH]" by (auto simp: suffix_def)
    then have "normalize_dir d \<noteq> []" "last (normalize_dir d) = BACKSLASH" by simp_all
    with rstrip_last [of "rstrip d [SLASH]" "[BACKSLASH]"] show False
      by (simp add: normalize_dir_def)
  qed
qed

text \<open>
  C9 fails as stated: a forward slash followed by a back slash leaves a path that still
  ends in a separator.
\<close>

theorem normalize_dir_mixed_counterexample:
  "normalize_dir (''/pl/'' @ [BACKSLASH]) = ''/pl/'' \<and>
   suffix [SLASH] (normalize_dir (''/pl/'' @ [BACKSLASH]))"
  by (simp add: normalize_dir_def rstrip_def suffix_def)

text \<open>
  The amended C9 at a path that ends in a forward slash and a back slash, at a path with
  two back slashes and three forward slashes, and at a path with no trailing separator.
\<close>

theorem normalize_dir_two_passes_witness:
  "normalize_dir (''/pl/'' @ replicate 1 BACKSLASH @ replicate 0 SLASH) = ''/pl/'' \<and>
   normalize_dir (''/pl'' @ replicate 2 BACKSLASH @ replicate 3 SLASH) = ''/pl'' \<and>
   normalize_dir (''/pl'' @ replicate 0 BACKSLASH @ replicate 0 SLASH) = ''/pl'' \<and>
   \<not> suffix [BACKSLASH] (normalize_dir (''/pl'' @ [BACKSLASH]))"
  using normalize_dir_two_passes [of "''/pl'' @ [BACKSLASH]" "''/pl/''" 1 0]
    normalize_dir_two_passes [of "''/pl'' @ [BACKSLASH]" "''/pl''" 2 3]
    normalize_dir_two_passes [of "''/pl'' @ [BACKSLASH]" "''/pl''" 0 0]
  by simp

text \<open>
  C10. For every component other than \<^verbatim>\<open>"inputs"\<close>, \<^verbatim>\<open>run\<close> returns \<^verbatim>\<open>None\<close> after the
  discovery, the file system is as it was, and only the discovery has logged: the supplied
  songs are never written.
\<close>

theorem run_outputs_returns_none:
  assumes "component kw \<noteq> ''inputs''"
  shows "returned (run nf fs st kw) = Inr None \<and> fs_after (run nf fs st kw) = fs \<and>
         logged (run nf fs st kw) = fst (discover fs st)"
  using assms by (simp add: run_def Let_def split: prod.splits)

text \<open>C10 for the component \<^verbatim>\<open>"outputs"\<close> with a playlist to write.\<close>

theorem run_outputs_returns_none_witness:
  "component as_outputs \<noteq> ''inputs'' \<and>
   returned (run (filter_list match_all) pl_top pl_settings as_outputs) = Inr None \<and>
   fs_after (run (filter_list match_all) pl_top pl_settings as_outputs) = pl_top \<and>
   logged (run (filter_list match_all) pl_top pl_settings as_outputs) = [LogFound 1]"
proof -
  have c: "component as_outputs \<noteq> ''inputs''" by (simp add: as_outputs_def)
  from run_outputs_returns_none [OF c, of "filter_list match_all" pl_top pl_settings] c
  show ?thesis by (simp add: discover_pl_top)
qed

end
